theory Spec2Isabelle
  imports Main
begin

section \<open>Flow-Logs-Processor: a shallow embedding of solution.py\<close>

text \<open>
  The program reads a lookup table (CSV rows) and a flow log (text lines), classifies
  every flow record by its (destination port, protocol) key and writes two count tables.

  Conventions of the embedding:
  \<^item> a Python \<open>str\<close> is a \<open>string\<close>; text is taken to be ASCII, so that
    \<open>str.lower\<close> changes exactly the letters \<open>A\<close> to \<open>Z\<close> and the whitespace of
    \<open>str.strip\<close> and \<open>str.split\<close> is the ten ASCII characters Python counts as space;
  \<^item> a Python \<open>int\<close> is an \<open>int\<close>;
  \<^item> a \<open>dict\<close> is an association list with distinct keys in insertion order;
  \<^item> a text file is the list of its lines, a CSV file the list of rows \<open>csv.reader\<close>
    yields, and the output file the list of rows handed to \<open>csv.writer.writerow\<close>;
  \<^item> \<open>print\<close> appends a message to the console, which every function returns
    together with its outcome; \<open>sys.exit\<close> is the outcome \<open>SystemExit\<close>.
\<close>

subsection \<open>Strings\<close>

definition isspace :: "char \<Rightarrow> bool" where
  "isspace c = (let n = (of_char c :: nat) in (9 \<le> n \<and> n \<le> 13) \<or> (28 \<le> n \<and> n \<le> 32))"

definition lower_char :: "char \<Rightarrow> char" where
  "lower_char c = (let n = (of_char c :: nat) in if 65 \<le> n \<and> n \<le> 90 then char_of (n + 32) else c)"

definition lower :: "string \<Rightarrow> string" where
  "lower s = map lower_char s"

definition lstrip :: "string \<Rightarrow> string" where
  "lstrip s = dropWhile isspace s"

definition rstrip :: "string \<Rightarrow> string" where
  "rstrip s = rev (dropWhile isspace (rev s))"

definition strip :: "string \<Rightarrow> string" where
  "strip s = rstrip (lstrip s)"

text \<open>
  \<open>str.split()\<close> without a separator: runs of whitespace separate the fields, and no
  field is empty. \<open>split_from s w\<close> scans \<open>s\<close> with the field read so far in \<open>w\<close>.
\<close>

fun split_from :: "string \<Rightarrow> string \<Rightarrow> string list" where
  "split_from [] w = (if w = [] then [] else [w])"
| "split_from (c # cs) w =
     (if isspace c then (if w = [] then split_from cs [] else w # split_from cs [])
      else split_from cs (w @ [c]))"

definition split :: "string \<Rightarrow> string list" where
  "split s = split_from s []"

subsection \<open>Dictionaries and sequences\<close>

type_synonym ('k, 'v) dict = "('k \<times> 'v) list"

text \<open>\<open>d.get(k, default)\<close>\<close>

fun get :: "('k, 'v) dict \<Rightarrow> 'k \<Rightarrow> 'v \<Rightarrow> 'v" where
  "get [] k dflt = dflt"
| "get ((k', v) # d) k dflt = (if k' = k then v else get d k dflt)"

text \<open>\<open>d[k] = v\<close>: an existing key keeps its place, a new key goes to the end.\<close>

fun setitem :: "('k, 'v) dict \<Rightarrow> 'k \<Rightarrow> 'v \<Rightarrow> ('k, 'v) dict" where
  "setitem [] k v = [(k, v)]"
| "setitem ((k', v') # d) k v = (if k' = k then (k', v) # d else (k', v') # setitem d k v)"

text \<open>\<open>d.keys()\<close> and \<open>d.values()\<close>, in insertion order\<close>

definition dict_keys :: "('k, 'v) dict \<Rightarrow> 'k list" where
  "dict_keys d = map fst d"

definition dict_values :: "('k, 'v) dict \<Rightarrow> 'v list" where
  "dict_values d = map snd d"

text \<open>\<open>enumerate(xs, start)\<close>\<close>

fun enumerate_from :: "'a list \<Rightarrow> nat \<Rightarrow> (nat \<times> 'a) list" where
  "enumerate_from [] n = []"
| "enumerate_from (x # xs) n = (n, x) # enumerate_from xs (Suc n)"

text \<open>The exceptions the program can meet.\<close>

datatype exn =
    IndexError | ValueError | StopIteration
  | FileNotFoundError | PermissionError | CsvError | OtherError

text \<open>\<open>xs[i]\<close> for an index that is not negative\<close>

definition item :: "'a list \<Rightarrow> nat \<Rightarrow> exn + 'a" where
  "item xs i = (if i < length xs then Inr (xs ! i) else Inl IndexError)"

text \<open>\<open>next(it)\<close>: the first element and the rest of the iterator\<close>

definition next_row :: "'a list \<Rightarrow> exn + ('a \<times> 'a list)" where
  "next_row xs = (case xs of [] \<Rightarrow> Inl StopIteration | x # rest \<Rightarrow> Inr (x, rest))"

text \<open>\<open>a, b, c = xs\<close>\<close>

definition unpack3 :: "'a list \<Rightarrow> exn + ('a \<times> 'a \<times> 'a)" where
  "unpack3 xs = (case xs of [a, b, c] \<Rightarrow> Inr (a, b, c) | _ \<Rightarrow> Inl ValueError)"

subsection \<open>Files, console and outcomes\<close>

text \<open>
  Reading a file either raises (\<open>Inl\<close>: the file is missing, access is denied, or
  anything else went wrong before content was delivered) or delivers the content.
\<close>

type_synonym 'a opened = "exn + 'a"

datatype message =
    Line_insufficient nat
  | Line_malformed nat
  | Flow_log_not_found
  | Flow_log_denied
  | Flow_log_unexpected exn
  | Row_incorrect nat
  | Lookup_not_found
  | Lookup_denied
  | Lookup_malformed exn
  | Lookup_unexpected exn
  | Entry_error string string exn
  | Results_written

text \<open>A function ends in \<open>sys.exit(status)\<close> or returns a value.\<close>

datatype 'a outcome = SystemExit int | Returns 'a

type_synonym flow_record = "string \<times> string"
type_synonym lookup_key = "string \<times> string"
type_synonym lookup = "(lookup_key, string) dict"
type_synonym tag_counts = "(string, int) dict"
type_synonym portprotocol_counts = "(lookup_key, int) dict"

subsection \<open>process_flow_logs\<close>

text \<open>The tuple \<open>(fields[6], fields[7])\<close>\<close>

definition fields_6_7 :: "string list \<Rightarrow> exn + flow_record" where
  "fields_6_7 fields =
     (case item fields 6 of
        Inl e \<Rightarrow> Inl e
      | Inr dst_port \<Rightarrow>
          (case item fields 7 of
             Inl e \<Rightarrow> Inl e
           | Inr protocol_num \<Rightarrow> Inr (dst_port, protocol_num)))"

text \<open>
  The loop over \<open>enumerate(file, 1)\<close>. The inner handler catches \<open>IndexError\<close> only;
  any other exception leaves the loop.
\<close>

fun flow_lines ::
  "(nat \<times> string) list \<Rightarrow> message list \<Rightarrow> flow_record list
     \<Rightarrow> message list \<times> (exn + flow_record list)" where
  "flow_lines [] out required_flow_data = (out, Inr required_flow_data)"
| "flow_lines ((line_number, line) # rest) out required_flow_data =
     (let fields = split (strip line) in
      if length fields < 8
      then flow_lines rest (out @ [Line_insufficient line_number]) required_flow_data
      else (case fields_6_7 fields of
              Inr record \<Rightarrow> flow_lines rest out (required_flow_data @ [record])
            | Inl e \<Rightarrow>
                if e = IndexError
                then flow_lines rest (out @ [Line_malformed line_number]) required_flow_data
                else (out, Inl e)))"

definition process_flow_logs :: "string list opened \<Rightarrow> message list \<times> flow_record list outcome" where
  "process_flow_logs flow_logs =
     (case (case flow_logs of
              Inl e \<Rightarrow> ([], Inl e)
            | Inr file_lines \<Rightarrow> flow_lines (enumerate_from file_lines 1) [] []) of
        (out, Inr required_flow_data) \<Rightarrow> (out, Returns required_flow_data)
      | (out, Inl e) \<Rightarrow>
          if e = FileNotFoundError then (out @ [Flow_log_not_found], SystemExit 1)
          else if e = PermissionError then (out @ [Flow_log_denied], SystemExit 1)
          else (out @ [Flow_log_unexpected e], SystemExit 1))"

subsection \<open>read_lookup_table\<close>

text \<open>The loop over \<open>enumerate(reader, 2)\<close>\<close>

fun lookup_rows ::
  "(nat \<times> string list) list \<Rightarrow> message list \<Rightarrow> lookup \<Rightarrow> message list \<times> (exn + lookup)" where
  "lookup_rows [] out lookup_data = (out, Inr lookup_data)"
| "lookup_rows ((row_number, row) # rest) out lookup_data =
     (if length row \<noteq> 3
      then lookup_rows rest (out @ [Row_incorrect row_number]) lookup_data
      else (case unpack3 row of
              Inl e \<Rightarrow> (out, Inl e)
            | Inr (port, protocol, tag) \<Rightarrow>
                lookup_rows rest out (setitem lookup_data (port, lower protocol) tag)))"

definition read_lookup_table :: "string list list opened \<Rightarrow> message list \<times> lookup outcome" where
  "read_lookup_table lookup_table =
     (case (case lookup_table of
              Inl e \<Rightarrow> ([], Inl e)
            | Inr reader \<Rightarrow>
                (case next_row reader of
                   Inl e \<Rightarrow> ([], Inl e)
                 | Inr (header, rows) \<Rightarrow> lookup_rows (enumerate_from rows 2) [] [])) of
        (out, Inr lookup_data) \<Rightarrow> (out, Returns lookup_data)
      | (out, Inl e) \<Rightarrow>
          if e = FileNotFoundError then (out @ [Lookup_not_found], SystemExit 1)
          else if e = PermissionError then (out @ [Lookup_denied], SystemExit 1)
          else if e = CsvError then (out @ [Lookup_malformed e], SystemExit 1)
          else (out @ [Lookup_unexpected e], SystemExit 1))"

subsection \<open>match_flowdata_tags\<close>

definition PROTOCOL_MAP :: "(string, string) dict" where
  "PROTOCOL_MAP = [(''6'', ''tcp''), (''17'', ''udp''), (''1'', ''icmp'')]"

text \<open>\<open>PROTOCOL_MAP.get(protocol_num, protocol_num).lower()\<close>\<close>

definition protocol_name :: "string \<Rightarrow> string" where
  "protocol_name protocol_num = lower (get PROTOCOL_MAP protocol_num protocol_num)"

text \<open>
  The body of the \<open>try\<close> block for one record. It works on the two dictionaries in
  place, so it hands back the dictionaries as they are when it ends, with the exception
  that ended it, if any. Its operations are \<open>dict.get\<close> with a default, \<open>str.lower\<close>,
  pairing, adding one and item assignment.
\<close>

definition count_entry ::
  "lookup \<Rightarrow> flow_record \<Rightarrow> tag_counts \<times> portprotocol_counts
     \<Rightarrow> exn option \<times> tag_counts \<times> portprotocol_counts" where
  "count_entry lookup_table entry counts =
     (case (entry, counts) of ((dst_port, protocol_num), (tag_count, portprotocol_count)) \<Rightarrow>
        let key = (dst_port, protocol_name protocol_num);
            portprotocol_count = setitem portprotocol_count key (get portprotocol_count key 0 + 1);
            tag = get lookup_table key ''Untagged'';
            tag_count = setitem tag_count tag (get tag_count tag 0 + 1)
        in (None, tag_count, portprotocol_count))"

fun count_entries ::
  "lookup \<Rightarrow> flow_record list \<Rightarrow> message list \<Rightarrow> tag_counts \<times> portprotocol_counts
     \<Rightarrow> message list \<times> tag_counts \<times> portprotocol_counts" where
  "count_entries lookup_table [] out counts = (out, counts)"
| "count_entries lookup_table ((dst_port, protocol_num) # rest) out counts =
     (case count_entry lookup_table (dst_port, protocol_num) counts of
        (None, counts') \<Rightarrow> count_entries lookup_table rest out counts'
      | (Some e, counts') \<Rightarrow>
          count_entries lookup_table rest (out @ [Entry_error dst_port protocol_num e]) counts')"

definition match_flowdata_tags ::
  "flow_record list \<Rightarrow> lookup \<Rightarrow> message list \<times> tag_counts \<times> portprotocol_counts" where
  "match_flowdata_tags flow_data lookup_table = count_entries lookup_table flow_data [] ([], [])"

subsection \<open>write_results_to_csv\<close>

text \<open>A row handed to the writer holds strings and integers.\<close>

datatype cell = Text string | Number int

type_synonym csv = "cell list list"

definition writerow :: "csv \<Rightarrow> cell list \<Rightarrow> csv" where
  "writerow f row = f @ [row]"

fun write_tag_rows :: "tag_counts \<Rightarrow> csv \<Rightarrow> csv" where
  "write_tag_rows [] f = f"
| "write_tag_rows ((tag, n) # rest) f = write_tag_rows rest (writerow f [Text tag, Number n])"

fun write_portprotocol_rows :: "portprotocol_counts \<Rightarrow> csv \<Rightarrow> csv" where
  "write_portprotocol_rows [] f = f"
| "write_portprotocol_rows (((port, protocol), n) # rest) f =
     write_portprotocol_rows rest (writerow f [Text port, Text protocol, Number n])"

text \<open>The file is opened with mode \<open>'w'\<close>: it starts empty.\<close>

definition write_results_to_csv :: "tag_counts \<Rightarrow> portprotocol_counts \<Rightarrow> csv" where
  "write_results_to_csv tag_counts portprotocol_counts =
     (let f = [];
          f = writerow f [Text ''Tag Counts:''];
          f = writerow f [Text ''Tag'', Text ''Count''];
          f = write_tag_rows tag_counts f;
          f = writerow f [];
          f = writerow f [Text ''Port/Protocol Combination Counts:''];
          f = writerow f [Text ''Port'', Text ''Protocol'', Text ''Count''];
          f = write_portprotocol_rows portprotocol_counts f
      in f)"

subsection \<open>generate_output\<close>

text \<open>
  \<open>sys.exit\<close> raises \<open>SystemExit\<close>, which the handler for \<open>Exception\<close> does not catch:
  an exit in a stage ends the run with that status.
\<close>

definition generate_output ::
  "string list list opened \<Rightarrow> string list opened \<Rightarrow> message list \<times> csv outcome" where
  "generate_output lookup_table flow_logs =
     (case read_lookup_table lookup_table of
        (out1, SystemExit status) \<Rightarrow> (out1, SystemExit status)
      | (out1, Returns lookup_data) \<Rightarrow>
          (case process_flow_logs flow_logs of
             (out2, SystemExit status) \<Rightarrow> (out1 @ out2, SystemExit status)
           | (out2, Returns flow_data) \<Rightarrow>
               (case match_flowdata_tags flow_data lookup_data of
                  (out3, tag_counts, portprotocol_counts) \<Rightarrow>
                    (out1 @ out2 @ out3 @ [Results_written],
                     Returns (write_results_to_csv tag_counts portprotocol_counts)))))"

section \<open>Properties\<close>

subsection \<open>Strings\<close>

lemma lower_char_twice: "lower_char (lower_char c) = lower_char c"
  by (simp add: lower_char_def Let_def)

lemma lower_twice: "lower (lower s) = lower s"
  by (simp add: lower_def lower_char_twice)

lemma lower_char_range:
  "lower_char c \<noteq> c \<Longrightarrow> 97 \<le> (of_char (lower_char c) :: nat) \<and> (of_char (lower_char c) :: nat) \<le> 122"
  by (simp add: lower_char_def Let_def split: if_splits)

lemma lower_char_eq_digit:
  assumes "lower_char c = d" and "(of_char d :: nat) < 97"
  shows "c = d"
  using assms lower_char_range [of c] by force

lemma lower_eq_6: "lower s = ''6'' \<Longrightarrow> s = ''6''"
  by (auto simp: lower_def dest!: lower_char_eq_digit)

lemma lower_eq_17: "lower s = ''17'' \<Longrightarrow> s = ''17''"
  by (auto simp: lower_def dest!: lower_char_eq_digit)

lemma lower_eq_1: "lower s = ''1'' \<Longrightarrow> s = ''1''"
  by (auto simp: lower_def dest!: lower_char_eq_digit)

lemma split_from_spaces:
  "\<forall>c \<in> set ws. isspace c \<Longrightarrow> split_from ws w = (if w = [] then [] else [w])"
  by (induction ws arbitrary: w) auto

lemma split_from_append_spaces:
  "\<forall>c \<in> set ws. isspace c \<Longrightarrow> split_from (s @ ws) w = split_from s w"
  by (induction s arbitrary: w) (auto simp: split_from_spaces)

lemma split_from_dropWhile: "split_from (dropWhile isspace s) [] = split_from s []"
  by (induction s) auto

lemma rstrip_append: "rstrip s @ rev (takeWhile isspace (rev s)) = s"
proof -
  have "rev (takeWhile isspace (rev s) @ dropWhile isspace (rev s)) = s"
    by simp
  then show ?thesis
    unfolding rstrip_def rev_append .
qed

lemma split_rstrip: "split (rstrip s) = split s"
proof -
  have "\<forall>c \<in> set (rev (takeWhile isspace (rev s))). isspace c"
    by (auto dest: set_takeWhileD)
  then have "split_from (rstrip s @ rev (takeWhile isspace (rev s))) [] = split_from (rstrip s) []"
    by (rule split_from_append_spaces)
  then show ?thesis
    by (simp add: split_def rstrip_append)
qed

lemma split_strip: "split (strip s) = split s"
  by (simp add: strip_def split_rstrip) (simp add: split_def lstrip_def split_from_dropWhile)

subsection \<open>Protocol normalization\<close>

lemma get_PROTOCOL_MAP:
  "get PROTOCOL_MAP t t =
     (if t = ''6'' then ''tcp'' else if t = ''17'' then ''udp'' else if t = ''1'' then ''icmp'' else t)"
  by (simp add: PROTOCOL_MAP_def)

lemma lower_tcp: "lower ''tcp'' = ''tcp''" by code_simp
lemma lower_udp: "lower ''udp'' = ''udp''" by code_simp
lemma lower_icmp: "lower ''icmp'' = ''icmp''" by code_simp
lemma lower_6: "lower ''6'' = ''6''" by code_simp
lemma lower_17: "lower ''17'' = ''17''" by code_simp
lemma lower_1: "lower ''1'' = ''1''" by code_simp

lemma protocol_name_cases:
  "protocol_name t =
     (if t = ''6'' then ''tcp'' else if t = ''17'' then ''udp'' else if t = ''1'' then ''icmp''
      else lower t)"
  by (simp add: protocol_name_def get_PROTOCOL_MAP lower_tcp lower_udp lower_icmp)

lemma protocol_name_lower: "protocol_name (lower t) = protocol_name t"
proof -
  have "lower t = ''6'' \<longleftrightarrow> t = ''6''" "lower t = ''17'' \<longleftrightarrow> t = ''17''" "lower t = ''1'' \<longleftrightarrow> t = ''1''"
    using lower_eq_6 lower_eq_17 lower_eq_1 lower_6 lower_17 lower_1 by metis+
  then show ?thesis
    by (simp add: protocol_name_cases lower_twice)
qed

lemma protocol_name_twice: "protocol_name (protocol_name t) = protocol_name t"
proof -
  have tcp: "protocol_name ''tcp'' = ''tcp''" by code_simp
  have udp: "protocol_name ''udp'' = ''udp''" by code_simp
  have icmp: "protocol_name ''icmp'' = ''icmp''" by code_simp
  show ?thesis
  proof (cases "t = ''6'' \<or> t = ''17'' \<or> t = ''1''")
    case True
    then show ?thesis
      using tcp udp icmp by (auto simp: protocol_name_cases [of t])
  next
    case False
    then have "protocol_name t = lower t"
      by (simp add: protocol_name_cases)
    then show ?thesis
      by (simp add: protocol_name_lower)
  qed
qed

text \<open>
  Claim C3. Protocol normalization sends \<open>6\<close>, \<open>17\<close> and \<open>1\<close> to \<open>tcp\<close>, \<open>udp\<close> and
  \<open>icmp\<close>; a token that is no key of \<open>PROTOCOL_MAP\<close> is only lowercased; normalizing
  twice is normalizing once; tokens that differ in case only normalize to the same name;
  and \<open>6\<close>, \<open>TCP\<close> and \<open>tcp\<close> all give \<open>tcp\<close>.
\<close>

theorem protocol_normalization:
  "protocol_name ''6'' = ''tcp'' \<and> protocol_name ''17'' = ''udp'' \<and> protocol_name ''1'' = ''icmp''
   \<and> (t \<notin> set (dict_keys PROTOCOL_MAP) \<longrightarrow> protocol_name t = lower t)
   \<and> protocol_name (protocol_name t) = protocol_name t
   \<and> (lower s = lower t \<longrightarrow> protocol_name s = protocol_name t)
   \<and> protocol_name ''TCP'' = ''tcp'' \<and> protocol_name ''tcp'' = ''tcp''"
proof -
  have "protocol_name ''6'' = ''tcp''" "protocol_name ''17'' = ''udp''" "protocol_name ''1'' = ''icmp''"
       "protocol_name ''TCP'' = ''tcp''" "protocol_name ''tcp'' = ''tcp''"
    by code_simp+
  moreover have "t \<notin> set (dict_keys PROTOCOL_MAP) \<longrightarrow> protocol_name t = lower t"
    by (simp add: protocol_name_cases dict_keys_def PROTOCOL_MAP_def)
  moreover have "lower s = lower t \<longrightarrow> protocol_name s = protocol_name t"
    using protocol_name_lower [of s] protocol_name_lower [of t] by auto
  ultimately show ?thesis
    using protocol_name_twice by blast
qed

theorem protocol_normalization_witness:
  "''Gre'' \<notin> set (dict_keys PROTOCOL_MAP) \<and> protocol_name ''Gre'' = ''gre''
   \<and> protocol_name (protocol_name ''Gre'') = protocol_name ''Gre''
   \<and> lower ''UDP'' = lower ''Udp'' \<and> protocol_name ''UDP'' = protocol_name ''Udp''"
proof -
  have a: "''Gre'' \<notin> set (dict_keys PROTOCOL_MAP)" by code_simp
  have b: "lower ''UDP'' = lower ''Udp''" by code_simp
  have c: "lower ''Gre'' = ''gre''" by code_simp
  show ?thesis
    using a b c protocol_normalization [where t = "''Gre''" and s = "''UDP''"]
      protocol_normalization [where t = "''Udp''" and s = "''UDP''"]
    by metis
qed

subsection \<open>Dictionaries\<close>

lemma map_of_setitem: "map_of (setitem d k v) = (map_of d)(k \<mapsto> v)"
  by (induction d) (auto simp: fun_eq_iff)

lemma get_map_of: "get d k dflt = (case map_of d k of None \<Rightarrow> dflt | Some v \<Rightarrow> v)"
  by (induction d) auto

lemma dict_keys_setitem:
  "dict_keys (setitem d k v) = (if k \<in> set (dict_keys d) then dict_keys d else dict_keys d @ [k])"
  by (induction d) (force simp: dict_keys_def)+

lemma set_dict_keys_setitem: "set (dict_keys (setitem d k v)) = insert k (set (dict_keys d))"
  by (auto simp: dict_keys_setitem)

lemma distinct_dict_keys_setitem:
  "distinct (dict_keys d) \<Longrightarrow> distinct (dict_keys (setitem d k v))"
  by (simp add: dict_keys_setitem)

lemma sum_dict_values_increment:
  "sum_list (dict_values (setitem d k (get d k 0 + 1))) = sum_list (dict_values d) + (1::int)"
  by (induction d) (auto simp: dict_values_def)

lemma map_of_dict_keys: "map_of d k = None \<longleftrightarrow> k \<notin> set (dict_keys d)"
  by (simp add: dict_keys_def map_of_eq_None_iff)

subsection \<open>Extraction of flow records\<close>

lemma fields_6_7_long:
  "8 \<le> length fields \<Longrightarrow> fields_6_7 fields = Inr (fields ! 6, fields ! 7)"
  by (simp add: fields_6_7_def item_def)

lemma flow_lines_closed:
  "flow_lines (enumerate_from ls n) out acc =
     (out @ map (Line_insufficient \<circ> fst) (filter (\<lambda>numbered. length (split (snd numbered)) < 8) (enumerate_from ls n)),
      Inr (acc @ map (\<lambda>l. (split l ! 6, split l ! 7)) (filter (\<lambda>l. 8 \<le> length (split l)) ls)))"
proof (induction ls arbitrary: n out acc)
  case Nil
  show ?case by simp
next
  case (Cons l ls)
  show ?case
  proof (cases "length (split l) < 8")
    case True
    then show ?thesis
      by (simp add: Cons.IH split_strip)
  next
    case False
    then have "fields_6_7 (split l) = Inr (split l ! 6, split l ! 7)"
      by (simp add: fields_6_7_long)
    with False show ?thesis
      by (simp add: Cons.IH split_strip Let_def)
  qed
qed

lemma process_flow_logs_closed:
  "process_flow_logs (Inr ls) =
     (map (Line_insufficient \<circ> fst) (filter (\<lambda>numbered. length (split (snd numbered)) < 8) (enumerate_from ls 1)),
      Returns (map (\<lambda>l. (split l ! 6, split l ! 7)) (filter (\<lambda>l. 8 \<le> length (split l)) ls)))"
  by (simp add: process_flow_logs_def flow_lines_closed)

subsection \<open>Aggregation\<close>

lemma count_entry_completes: "fst (count_entry lookup_table entry counts) = None"
  by (simp add: count_entry_def Let_def split: prod.splits)

lemma count_entries_step:
  "count_entries lookup_table (entry # rest) out counts =
     count_entries lookup_table rest out (snd (count_entry lookup_table entry counts))"
proof -
  obtain c where "count_entry lookup_table entry counts = (None, c)"
    using count_entry_completes [of lookup_table entry counts]
    by (cases "count_entry lookup_table entry counts") auto
  then show ?thesis
    by (cases entry) simp
qed

lemma count_entries_append:
  "count_entries lookup_table (xs @ ys) out counts =
     count_entries lookup_table ys (fst (count_entries lookup_table xs out counts))
       (snd (count_entries lookup_table xs out counts))"
proof (induction xs arbitrary: counts)
  case Nil
  show ?case by simp
next
  case (Cons x xs)
  show ?case
    by (simp only: append_Cons count_entries_step Cons.IH)
qed


lemma count_entry_sums:
  assumes "count_entry lookup_table entry (tc, pc) = (e, tc', pc')"
  shows "sum_list (dict_values tc') = sum_list (dict_values tc) + 1"
    and "sum_list (dict_values pc') = sum_list (dict_values pc) + 1"
  using assms
  by (auto simp: count_entry_def Let_def sum_dict_values_increment split: prod.splits)

lemma count_entries_sums:
  assumes "count_entries lookup_table flow_data out (tc, pc) = (out', tc', pc')"
  shows "sum_list (dict_values tc') = sum_list (dict_values tc) + int (length flow_data)
       \<and> sum_list (dict_values pc') = sum_list (dict_values pc) + int (length flow_data)"
  using assms
proof (induction flow_data arbitrary: tc pc)
  case Nil
  then show ?case by simp
next
  case (Cons x xs)
  obtain e tc1 pc1 where step: "count_entry lookup_table x (tc, pc) = (e, tc1, pc1)"
    by (cases "count_entry lookup_table x (tc, pc)") auto
  with Cons.prems have "count_entries lookup_table xs out (tc1, pc1) = (out', tc', pc')"
    by (simp add: count_entries_step)
  from Cons.IH [OF this] count_entry_sums [OF step] show ?case
    by simp
qed

subsection \<open>Claims about the extraction of flow records\<close>

text \<open>
  Claim C7. Every line that splits into at least 8 fields gives exactly one record, made
  of its 7th and 8th field (indices 6 and 7) as they stand, and the records come in the
  order of the lines: the returned list is the lines with at least 8 fields, each mapped
  to that pair.
\<close>

theorem flow_records_in_line_order:
  "snd (process_flow_logs (Inr file_lines)) =
     Returns (map (\<lambda>line. (split line ! 6, split line ! 7))
                (filter (\<lambda>line. 8 \<le> length (split line)) file_lines))"
  by (simp add: process_flow_logs_closed)

theorem flow_records_in_line_order_witness:
  "snd (process_flow_logs (Inr [''a b c d e f 443 6 x'', ''a b c d e'', '' a b c d e f 25 17 ''])) =
     Returns [(''443'', ''6''), (''25'', ''17'')]"
proof -
  have "map (\<lambda>line. (split line ! 6, split line ! 7))
          (filter (\<lambda>line. 8 \<le> length (split line))
             [''a b c d e f 443 6 x'', ''a b c d e'', '' a b c d e f 25 17 ''])
        = [(''443'', ''6''), (''25'', ''17'')]"
    by code_simp
  then show ?thesis
    using flow_records_in_line_order
      [of "[''a b c d e f 443 6 x'', ''a b c d e'', '' a b c d e f 25 17 '']"]
    by simp
qed

lemma enumerate_from_append:
  "enumerate_from (xs @ ys) n = enumerate_from xs n @ enumerate_from ys (n + length xs)"
  by (induction xs arbitrary: n) auto

lemma generate_output_outcome:
  "snd (generate_output lookup_table flow_logs) =
     (case snd (read_lookup_table lookup_table) of
        SystemExit status \<Rightarrow> SystemExit status
      | Returns lookup_data \<Rightarrow>
          (case snd (process_flow_logs flow_logs) of
             SystemExit status \<Rightarrow> SystemExit status
           | Returns flow_data \<Rightarrow>
               Returns (write_results_to_csv
                 (fst (snd (match_flowdata_tags flow_data lookup_data)))
                 (snd (snd (match_flowdata_tags flow_data lookup_data))))))"
  by (simp add: generate_output_def split: prod.splits outcome.splits)

text \<open>
  Claim C4. A line that splits into fewer than 8 fields is skipped and the run goes on:
  alone it gives no record; anywhere in a file, the records extracted are those of the
  file without it, the function returns rather than exits, the final output of the whole
  run (both count tables) is that of the file without it, and the warning printed
  carries its line number.
\<close>

theorem short_line_skipped:
  assumes "length (split line) < 8"
  shows "snd (process_flow_logs (Inr [line])) = Returns []
       \<and> snd (process_flow_logs (Inr (before @ line # after)))
           = snd (process_flow_logs (Inr (before @ after)))
       \<and> (\<exists>flow_data. snd (process_flow_logs (Inr (before @ line # after))) = Returns flow_data)
       \<and> snd (generate_output lookup_table (Inr (before @ line # after)))
           = snd (generate_output lookup_table (Inr (before @ after)))
       \<and> Line_insufficient (Suc (length before))
           \<in> set (fst (process_flow_logs (Inr (before @ line # after))))"
proof -
  have same: "snd (process_flow_logs (Inr (before @ line # after)))
                = snd (process_flow_logs (Inr (before @ after)))"
    using assms by (simp add: process_flow_logs_closed)
  have alone: "snd (process_flow_logs (Inr [line])) = Returns []"
    using assms by (simp add: process_flow_logs_closed)
  have returns: "\<exists>flow_data. snd (process_flow_logs (Inr (before @ line # after))) = Returns flow_data"
    by (simp add: process_flow_logs_closed)
  have written: "snd (generate_output lookup_table (Inr (before @ line # after)))
                  = snd (generate_output lookup_table (Inr (before @ after)))"
    by (simp only: generate_output_outcome same)
  have "(Suc (length before), line) \<in> set (enumerate_from (before @ line # after) 1)"
    by (simp add: enumerate_from_append)
  with assms have warned: "Line_insufficient (Suc (length before))
      \<in> set (fst (process_flow_logs (Inr (before @ line # after))))"
    by (force simp: process_flow_logs_closed)
  from alone same returns written warned show ?thesis
    by blast
qed

theorem short_line_skipped_witness:
  "length (split ''a b c d e'') < 8
   \<and> snd (process_flow_logs (Inr [''a b c d e''])) = Returns []
   \<and> snd (process_flow_logs (Inr ([''a b c d e f 443 6''] @ ''a b c d e'' # [''a b c d e f 25 17''])))
       = Returns [(''443'', ''6''), (''25'', ''17'')]
   \<and> Line_insufficient 2
       \<in> set (fst (process_flow_logs (Inr ([''a b c d e f 443 6''] @ ''a b c d e'' # [''a b c d e f 25 17'']))))"
proof -
  have short: "length (split ''a b c d e'') < 8"
    by code_simp
  have rest: "snd (process_flow_logs (Inr ([''a b c d e f 443 6''] @ [''a b c d e f 25 17''])))
                = Returns [(''443'', ''6''), (''25'', ''17'')]"
    by code_simp
  show ?thesis
    using short rest
      short_line_skipped [OF short, of "[''a b c d e f 443 6'']" "[''a b c d e f 25 17'']" "Inr []"]
    by (simp add: numeral_2_eq_2)
qed

subsection \<open>Claims about the aggregation\<close>

lemma match_flowdata_tags_sums:
  "sum_list (dict_values (fst (snd (match_flowdata_tags flow_data lookup_table)))) = int (length flow_data)
   \<and> sum_list (dict_values (snd (snd (match_flowdata_tags flow_data lookup_table)))) = int (length flow_data)"
proof -
  obtain out tc pc where m: "count_entries lookup_table flow_data [] ([], []) = (out, tc, pc)"
    by (cases "count_entries lookup_table flow_data [] ([], [])") auto
  from count_entries_sums [OF m] m show ?thesis
    by (simp add: match_flowdata_tags_def dict_values_def)
qed

text \<open>
  Claim C1. For every flow log, extraction returns, and the values of the tag counts and
  the values of the port/protocol counts both add up to the number of lines that split
  into at least 8 fields.
\<close>

theorem counts_sum_to_parsed_lines:
  "(case process_flow_logs (Inr file_lines) of
      (out, SystemExit status) \<Rightarrow> False
    | (out, Returns flow_data) \<Rightarrow>
        (case match_flowdata_tags flow_data lookup_table of
           (out', tag_counts, portprotocol_counts) \<Rightarrow>
             sum_list (dict_values tag_counts) = sum_list (dict_values portprotocol_counts)
             \<and> sum_list (dict_values portprotocol_counts)
                 = int (length (filter (\<lambda>line. 8 \<le> length (split line)) file_lines))))"
proof -
  let ?records = "map (\<lambda>line. (split line ! 6, split line ! 7))
                    (filter (\<lambda>line. 8 \<le> length (split line)) file_lines)"
  obtain out' tc pc where m: "match_flowdata_tags ?records lookup_table = (out', tc, pc)"
    by (cases "match_flowdata_tags ?records lookup_table") auto
  with match_flowdata_tags_sums [of ?records lookup_table]
  have "sum_list (dict_values tc) = int (length ?records)"
       "sum_list (dict_values pc) = int (length ?records)"
    by simp_all
  with m show ?thesis
    by (simp add: process_flow_logs_closed)
qed

theorem counts_sum_to_parsed_lines_witness:
  "sum_list (dict_values (fst (snd (match_flowdata_tags [(''25'', ''6''), (''9999'', ''17''), (''25'', ''TCP'')]
       [((''25'', ''tcp''), ''email'')])))) = 3
   \<and> sum_list (dict_values (snd (snd (match_flowdata_tags [(''25'', ''6''), (''9999'', ''17''), (''25'', ''TCP'')]
       [((''25'', ''tcp''), ''email'')])))) = 3
   \<and> length (filter (\<lambda>line. 8 \<le> length (split line))
        [''a b c d e f 25 6'', ''a b c'', ''a b c d e f 9999 17'', ''a b c d e f 25 TCP'']) = 3"
proof -
  have p: "process_flow_logs (Inr [''a b c d e f 25 6'', ''a b c'', ''a b c d e f 9999 17'', ''a b c d e f 25 TCP''])
           = ([Line_insufficient 2], Returns [(''25'', ''6''), (''9999'', ''17''), (''25'', ''TCP'')])"
    by code_simp
  have n: "length (filter (\<lambda>line. 8 \<le> length (split line))
        [''a b c d e f 25 6'', ''a b c'', ''a b c d e f 9999 17'', ''a b c d e f 25 TCP'']) = 3"
    by code_simp
  show ?thesis
    using counts_sum_to_parsed_lines
      [of "[''a b c d e f 25 6'', ''a b c'', ''a b c d e f 9999 17'', ''a b c d e f 25 TCP'']"
          "[((''25'', ''tcp''), ''email'')]"]
    unfolding p n
    by (simp split: prod.splits)
qed




lemma match_flowdata_tags_snoc:
  "snd (match_flowdata_tags (flow_data @ [entry]) lookup_table) =
     snd (count_entry lookup_table entry (snd (match_flowdata_tags flow_data lookup_table)))"
  by (simp add: match_flowdata_tags_def count_entries_append [of _ flow_data] count_entries_step)

lemma count_entry_tag_count:
  "fst (snd (count_entry lookup_table (dst_port, protocol_num) (tag_count, portprotocol_count))) =
     setitem tag_count (get lookup_table (dst_port, protocol_name protocol_num) ''Untagged'')
       (get tag_count (get lookup_table (dst_port, protocol_name protocol_num) ''Untagged'') 0 + 1)"
  by (simp add: count_entry_def Let_def)

text \<open>
  Claim C2. Processing one more record changes the tag counts in exactly one entry. When
  the record's key (destination port, normalized protocol name) is not a key of the
  lookup table, that entry is \<open>Untagged\<close>, whose count grows by one (from 0 when it
  was absent), and every other tag is as before; when the lookup table maps the key to a
  tag, the entry is that tag instead.
\<close>

theorem untagged_when_key_absent:
  assumes before: "snd (match_flowdata_tags flow_data lookup_table) = (tag_count, portprotocol_count)"
    and after: "snd (match_flowdata_tags (flow_data @ [(dst_port, protocol_num)]) lookup_table)
                  = (tag_count', portprotocol_count')"
  shows "((dst_port, protocol_name protocol_num) \<notin> set (dict_keys lookup_table) \<longrightarrow>
            map_of tag_count' = (map_of tag_count)(''Untagged'' \<mapsto> get tag_count ''Untagged'' 0 + 1))
       \<and> (\<forall>tag. map_of lookup_table (dst_port, protocol_name protocol_num) = Some tag \<longrightarrow>
            map_of tag_count' = (map_of tag_count)(tag \<mapsto> get tag_count tag 0 + 1))"
proof -
  let ?key = "(dst_port, protocol_name protocol_num)"
  let ?tag = "get lookup_table ?key ''Untagged''"
  have "tag_count' = fst (snd (count_entry lookup_table (dst_port, protocol_num) (tag_count, portprotocol_count)))"
    using before after by (simp add: match_flowdata_tags_snoc)
  then have step: "map_of tag_count' = (map_of tag_count)(?tag \<mapsto> get tag_count ?tag 0 + 1)"
    by (simp only: count_entry_tag_count map_of_setitem)
  have absent: "?key \<notin> set (dict_keys lookup_table) \<Longrightarrow> ?tag = ''Untagged''"
    by (simp add: get_map_of map_of_dict_keys [symmetric])
  have present: "map_of lookup_table ?key = Some tag \<Longrightarrow> ?tag = tag" for tag
    by (simp add: get_map_of)
  from step absent present show ?thesis
    by metis
qed

theorem untagged_when_key_absent_witness:
  "(''9999'', protocol_name ''17'') \<notin> set (dict_keys [((''25'', ''tcp''), ''email'')])
   \<and> map_of (fst (snd (match_flowdata_tags ([(''25'', ''6'')] @ [(''9999'', ''17'')]) [((''25'', ''tcp''), ''email'')])))
       = [''email'' \<mapsto> 1, ''Untagged'' \<mapsto> 1]
   \<and> map_of [((''25'', ''tcp''), ''email'')] (''25'', protocol_name ''TCP'') = Some ''email''
   \<and> map_of (fst (snd (match_flowdata_tags ([(''25'', ''6'')] @ [(''25'', ''TCP'')]) [((''25'', ''tcp''), ''email'')])))
       = [''email'' \<mapsto> 2]"
proof -
  let ?lookup = "[((''25'', ''tcp''), ''email'')]"
  have start: "snd (match_flowdata_tags [(''25'', ''6'')] ?lookup) = ([(''email'', 1)], [((''25'', ''tcp''), 1)])"
    by code_simp
  have absent: "(''9999'', protocol_name ''17'') \<notin> set (dict_keys ?lookup)"
    by code_simp
  have present: "map_of ?lookup (''25'', protocol_name ''TCP'') = Some ''email''"
    by code_simp
  have a: "snd (match_flowdata_tags ([(''25'', ''6'')] @ [(''9999'', ''17'')]) ?lookup)
         = (fst (snd (match_flowdata_tags ([(''25'', ''6'')] @ [(''9999'', ''17'')]) ?lookup)),
            snd (snd (match_flowdata_tags ([(''25'', ''6'')] @ [(''9999'', ''17'')]) ?lookup)))"
    by simp
  have b: "snd (match_flowdata_tags ([(''25'', ''6'')] @ [(''25'', ''TCP'')]) ?lookup)
         = (fst (snd (match_flowdata_tags ([(''25'', ''6'')] @ [(''25'', ''TCP'')]) ?lookup)),
            snd (snd (match_flowdata_tags ([(''25'', ''6'')] @ [(''25'', ''TCP'')]) ?lookup)))"
    by simp
  show ?thesis
    using absent present
      untagged_when_key_absent [OF start a] untagged_when_key_absent [OF start b]
    by (simp add: fun_upd_twist)
qed

subsection \<open>Claims about the lookup table\<close>

lemma unpack3_three: "length row = 3 \<Longrightarrow> unpack3 row = Inr (row ! 0, row ! 1, row ! 2)"
  by (auto simp: unpack3_def numeral_3_eq_3 length_Suc_conv)

lemma lookup_rows_closed:
  "lookup_rows (enumerate_from rows n) out lookup_data =
     (out @ map (Row_incorrect \<circ> fst)
              (filter (\<lambda>numbered. length (snd numbered) \<noteq> 3) (enumerate_from rows n)),
      Inr (foldl (\<lambda>d row. setitem d (row ! 0, lower (row ! 1)) (row ! 2)) lookup_data
             (filter (\<lambda>row. length row = 3) rows)))"
proof (induction rows arbitrary: n out lookup_data)
  case Nil
  show ?case by simp
next
  case (Cons row rows)
  show ?case
  proof (cases "length row = 3")
    case True
    then show ?thesis
      by (simp add: Cons.IH unpack3_three)
  next
    case False
    then show ?thesis
      by (simp add: Cons.IH)
  qed
qed

lemma read_lookup_table_closed:
  "read_lookup_table (Inr (header # rows)) =
     (map (Row_incorrect \<circ> fst)
        (filter (\<lambda>numbered. length (snd numbered) \<noteq> 3) (enumerate_from rows 2)),
      Returns (foldl (\<lambda>d row. setitem d (row ! 0, lower (row ! 1)) (row ! 2)) []
                 (filter (\<lambda>row. length row = 3) rows)))"
  by (simp add: read_lookup_table_def next_row_def lookup_rows_closed)

lemma foldl_setitem_keys:
  "set (dict_keys (foldl (\<lambda>d row. setitem d (key row) (val row)) d rows)) =
     set (dict_keys d) \<union> key ` set rows"
  by (induction rows arbitrary: d) (auto simp: set_dict_keys_setitem)

lemma foldl_setitem_distinct:
  "distinct (dict_keys d) \<Longrightarrow>
     distinct (dict_keys (foldl (\<lambda>d row. setitem d (key row) (val row)) d rows))"
  by (induction rows arbitrary: d) (auto simp: distinct_dict_keys_setitem)

lemma foldl_setitem_other:
  "\<forall>row \<in> set rows. key row \<noteq> k \<Longrightarrow>
     map_of (foldl (\<lambda>d row. setitem d (key row) (val row)) d rows) k = map_of d k"
  by (induction rows arbitrary: d) (auto simp: map_of_setitem)

text \<open>
  Claim C5. When several rows after the header have the same key (port, lowercased
  protocol), the table maps the key to the tag of the last of them: for a 3-field row
  followed by no 3-field row with its key, loading returns a table that maps the key to
  that row's tag, whatever the rows before it hold.
\<close>

theorem last_duplicate_wins:
  assumes "\<forall>row \<in> set after. length row = 3 \<longrightarrow> (row ! 0, lower (row ! 1)) \<noteq> (port, lower protocol)"
  shows "(case read_lookup_table (Inr (header # before @ [port, protocol, tag] # after)) of
            (out, SystemExit status) \<Rightarrow> False
          | (out, Returns lookup_data) \<Rightarrow>
              map_of lookup_data (port, lower protocol) = Some tag
              \<and> get lookup_data (port, lower protocol) ''Untagged'' = tag)"
proof -
  let ?step = "\<lambda>d row. setitem d (row ! 0, lower (row ! 1)) (row ! 2)"
  let ?ok = "\<lambda>row::string list. length row = 3"
  let ?d = "foldl ?step [] (filter ?ok before)"
  have "\<forall>row \<in> set (filter ?ok after). (row ! 0, lower (row ! 1)) \<noteq> (port, lower protocol)"
    using assms by simp
  then have "map_of (foldl ?step (setitem ?d (port, lower protocol) tag) (filter ?ok after)) (port, lower protocol)
               = map_of (setitem ?d (port, lower protocol) tag) (port, lower protocol)"
    by (rule foldl_setitem_other [where key = "\<lambda>row. (row ! 0, lower (row ! 1))" and val = "\<lambda>row. row ! 2"])
  then have "map_of (foldl ?step [] (filter ?ok (before @ [port, protocol, tag] # after))) (port, lower protocol)
               = Some tag"
    by (simp add: map_of_setitem)
  then show ?thesis
    by (simp add: read_lookup_table_closed get_map_of)
qed

theorem last_duplicate_wins_witness:
  "snd (read_lookup_table (Inr ([''port'', ''protocol'', ''tag'']
          # [[''25'', ''tcp'', ''email''], [''68'', ''udp'', ''dhcp''], [''25'', ''TCP'', ''smtp'']]
          @ [''25'', ''Tcp'', ''mail''] # [[''25'', ''tcp''], [''68'', ''UDP'', ''bootp'']])))
     = Returns [((''25'', ''tcp''), ''mail''), ((''68'', ''udp''), ''bootp'')]
   \<and> get [((''25'', ''tcp''), ''mail''), ((''68'', ''udp''), ''bootp'')] (''25'', lower ''Tcp'') ''Untagged'' = ''mail''"
proof -
  have r: "read_lookup_table (Inr ([''port'', ''protocol'', ''tag'']
          # [[''25'', ''tcp'', ''email''], [''68'', ''udp'', ''dhcp''], [''25'', ''TCP'', ''smtp'']]
          @ [''25'', ''Tcp'', ''mail''] # [[''25'', ''tcp''], [''68'', ''UDP'', ''bootp'']]))
     = ([Row_incorrect 6], Returns [((''25'', ''tcp''), ''mail''), ((''68'', ''udp''), ''bootp'')])"
    by code_simp
  have h: "\<forall>row \<in> set [[''25'', ''tcp''], [''68'', ''UDP'', ''bootp'']].
             length row = 3 \<longrightarrow> (row ! 0, lower (row ! 1)) \<noteq> (''25'', lower ''Tcp'')"
    by code_simp
  show ?thesis
    using last_duplicate_wins [OF h, where header = "[''port'', ''protocol'', ''tag'']"
        and before = "[[''25'', ''tcp'', ''email''], [''68'', ''udp'', ''dhcp''], [''25'', ''TCP'', ''smtp'']]"
        and tag = "''mail''"]
    unfolding r
    by simp
qed

text \<open>
  Claim C6. For every lookup table with a header row, loading returns (rows whose field
  count is not 3 do not abort it); the keys of the table returned are exactly the pairs
  (port as it stands, lowercased protocol) of the rows with 3 fields, each key once; and
  the table is the one obtained from the file without the rows of another field count.
\<close>

theorem lookup_keys_are_three_field_rows:
  "(case read_lookup_table (Inr (header # rows)) of
      (out, SystemExit status) \<Rightarrow> False
    | (out, Returns lookup_data) \<Rightarrow>
        set (dict_keys lookup_data)
          = (\<lambda>row. (row ! 0, lower (row ! 1))) ` {row \<in> set rows. length row = 3}
        \<and> distinct (dict_keys lookup_data)
        \<and> snd (read_lookup_table (Inr (header # filter (\<lambda>row. length row = 3) rows)))
            = Returns lookup_data)"
proof -
  let ?step = "\<lambda>d row. setitem d (row ! 0, lower (row ! 1)) (row ! 2)"
  let ?rows = "filter (\<lambda>row::string list. length row = 3) rows"
  have "set (dict_keys (foldl ?step [] ?rows)) = (\<lambda>row. (row ! 0, lower (row ! 1))) ` set ?rows"
    using foldl_setitem_keys [where key = "\<lambda>row. (row ! 0, lower (row ! 1))" and val = "\<lambda>row. row ! 2"
        and d = "[]" and rows = ?rows]
    by (simp add: dict_keys_def)
  moreover have "distinct (dict_keys (foldl ?step [] ?rows))"
    by (rule foldl_setitem_distinct [where key = "\<lambda>row. (row ! 0, lower (row ! 1))" and val = "\<lambda>row. row ! 2"])
       (simp add: dict_keys_def)
  ultimately show ?thesis
    by (simp add: read_lookup_table_closed)
qed

theorem lookup_keys_are_three_field_rows_witness:
  "read_lookup_table (Inr ([''port'', ''protocol'', ''tag'']
      # [[''25'', ''TCP'', ''email''], [''443'', ''tcp''], [], [''68'', ''Udp'', ''dhcp''], [''1'', ''2'', ''3'', ''4'']]))
     = ([Row_incorrect 3, Row_incorrect 4, Row_incorrect 6],
        Returns [((''25'', ''tcp''), ''email''), ((''68'', ''udp''), ''dhcp'')])
   \<and> set (dict_keys [((''25'', ''tcp''), ''email''), ((''68'', ''udp''), ''dhcp'')])
       = (\<lambda>row. (row ! 0, lower (row ! 1))) ` {row \<in> set [[''25'', ''TCP'', ''email''], [''443'', ''tcp''], [],
            [''68'', ''Udp'', ''dhcp''], [''1'', ''2'', ''3'', ''4'']]. length row = 3}"
proof -
  have r: "read_lookup_table (Inr ([''port'', ''protocol'', ''tag'']
      # [[''25'', ''TCP'', ''email''], [''443'', ''tcp''], [], [''68'', ''Udp'', ''dhcp''], [''1'', ''2'', ''3'', ''4'']]))
     = ([Row_incorrect 3, Row_incorrect 4, Row_incorrect 6],
        Returns [((''25'', ''tcp''), ''email''), ((''68'', ''udp''), ''dhcp'')])"
    by code_simp
  show ?thesis
    using lookup_keys_are_three_field_rows [where header = "[''port'', ''protocol'', ''tag'']"
      and rows = "[[''25'', ''TCP'', ''email''], [''443'', ''tcp''], [], [''68'', ''Udp'', ''dhcp''], [''1'', ''2'', ''3'', ''4'']]"]
    unfolding r
    by simp
qed

subsection \<open>Claim about the output\<close>





subsection \<open>Claim about an empty lookup table file\<close>

text \<open>
  Claim C10. A lookup table file with no row at all is fatal: \<open>next(reader)\<close> raises
  \<open>StopIteration\<close>, the generic handler reports it and exits with status 1, so loading
  does not return an empty mapping, and the whole run ends with that status whatever the
  flow log holds.
\<close>

theorem empty_lookup_file_is_fatal:
  "read_lookup_table (Inr []) = ([Lookup_unexpected StopIteration], SystemExit 1)
   \<and> snd (read_lookup_table (Inr [])) \<noteq> Returns []
   \<and> generate_output (Inr []) flow_logs = ([Lookup_unexpected StopIteration], SystemExit 1)
   \<and> (1::int) \<noteq> 0"
  by (simp add: read_lookup_table_def next_row_def generate_output_def)

theorem empty_lookup_file_is_fatal_witness:
  "generate_output (Inr []) (Inr [''a b c d e f 25 6'']) = ([Lookup_unexpected StopIteration], SystemExit 1)"
  using empty_lookup_file_is_fatal [of "Inr [''a b c d e f 25 6'']"]
  by simp

end
